theory Spec2Isabelle
  imports Main "HOL-Library.Word"
begin

section \<open>Data model\<close>

text \<open>
  The embedding follows \<^verbatim>\<open>src/gifler.js\<close>: the \<^verbatim>\<open>Decoder\<close> class and the
  \<^verbatim>\<open>Animator\<close> class. The GIF reader (omggif), the DOM canvas and the host timer are
  collaborators outside the repository; they appear as parameters and as logged calls.

  A JavaScript exception is a value of \<open>error\<close>. A method that mutates the animator
  before it throws returns the error together with the state reached at the throw.
\<close>

datatype error = TypeError | FrameIndexOutOfRange | DecodeFailure

text \<open>
  A JavaScript number that may be \<^verbatim>\<open>undefined\<close> or \<^verbatim>\<open>NaN\<close>: both are \<open>None\<close>,
  since every arithmetic operation of the source maps either of them to \<^verbatim>\<open>NaN\<close> and
  every comparison with them is false. All other numbers of the program are integers
  (millisecond time stamps and frame delays).
\<close>

type_synonym number = "int option"

definition num_add :: "number \<Rightarrow> number \<Rightarrow> number" where
  "num_add a b = (case a of None \<Rightarrow> None | Some x \<Rightarrow> (case b of None \<Rightarrow> None | Some y \<Rightarrow> Some (x + y)))"

definition num_sub :: "number \<Rightarrow> number \<Rightarrow> number" where
  "num_sub a b = (case a of None \<Rightarrow> None | Some x \<Rightarrow> (case b of None \<Rightarrow> None | Some y \<Rightarrow> Some (x - y)))"

definition num_lt0 :: "number \<Rightarrow> bool" where
  "num_lt0 a = (case a of None \<Rightarrow> False | Some x \<Rightarrow> x < 0)"

text \<open>The k-th evaluation of \<^verbatim>\<open>new Date().valueOf()\<close> returns \<open>clock k\<close>.\<close>

type_synonym clock = "nat \<Rightarrow> int"

type_synonym sample = "8 word"

text \<open>What \<^verbatim>\<open>reader.frameInfo(i)\<close> returns: the fields of the frame the program reads.\<close>

record frameInfo =
  info_x :: nat
  info_y :: nat
  info_width :: nat
  info_height :: nat
  info_delay :: nat
  info_disposal :: nat

text \<open>
  The reader: the logical screen size, the loop count, the frame table, and for each frame
  index the writes \<^verbatim>\<open>decodeAndBlitFrameRGBA\<close> makes into the array it is given (position
  and sample), or the exception it throws. A typed array has a fixed length and ignores
  a write past its end, which is what \<open>list_update\<close> does. The loop count is taken to be
  a number, 0 for an endless animation.
\<close>

record reader =
  reader_width :: nat
  reader_height :: nat
  reader_loopCount :: nat
  reader_frames :: "frameInfo list"
  reader_blit :: "nat \<Rightarrow> error + (nat \<times> sample) list"

text \<open>The off-screen canvas \<^verbatim>\<open>createBufferCanvas\<close> builds for a frame.\<close>

record bufferCanvas =
  buf_width :: nat
  buf_height :: nat
  buf_image_width :: nat
  buf_image_height :: nat
  buf_data :: "sample list"
  buf_dx :: int
  buf_dy :: int

text \<open>
  A decoded frame: the \<^verbatim>\<open>frameInfo\<close> object after \<^verbatim>\<open>decodeFrame\<close> attached \<^verbatim>\<open>pixels\<close>
  to it; \<^verbatim>\<open>buffer\<close> is the property \<^verbatim>\<open>onFrame\<close> assigns (\<open>None\<close> while it is undefined).
\<close>

record frame =
  frame_x :: nat
  frame_y :: nat
  frame_width :: nat
  frame_height :: nat
  delay :: nat
  disposal :: nat
  pixels :: "sample list"
  buffer :: "bufferCanvas option"

text \<open>
  The content of the drawing surface, symbolically: blank (after the whole canvas was
  cleared or resized), or an image drawn at an offset over earlier content.
\<close>

datatype canvas = Blank | Drawn canvas bufferCanvas nat nat

text \<open>The value of \<^verbatim>\<open>this.disposeFrame\<close> when it is a closure.\<close>

datatype dispose = ClearCanvas | RestoreSaved canvas

text \<open>The calls the animator makes on the DOM, in order.\<close>

datatype call =
    CreateBuffer nat
  | ClearRect
  | GetImageData canvas
  | PutImageData canvas
  | DrawImage bufferCanvas nat nat

section \<open>Decoder\<close>

definition generateArray :: "nat \<Rightarrow> nat list" where
  "generateArray num = [0..<num]"

definition numFrames :: "reader \<Rightarrow> nat" where
  "numFrames rd = length (reader_frames rd)"

text \<open>\<^verbatim>\<open>reader.frameInfo(i)\<close> throws when the index is out of range.\<close>

definition frameInfo_at :: "reader \<Rightarrow> nat \<Rightarrow> error + frameInfo" where
  "frameInfo_at rd frameIndex =
     (if frameIndex < length (reader_frames rd) then Inr (reader_frames rd ! frameIndex)
      else Inl FrameIndexOutOfRange)"

fun apply_writes :: "(nat \<times> sample) list \<Rightarrow> sample list \<Rightarrow> sample list" where
  "apply_writes [] px = px"
| "apply_writes ((i, v) # ws) px = apply_writes ws (px[i := v])"

definition decodeFrame :: "reader \<Rightarrow> nat \<Rightarrow> error + frame" where
  "decodeFrame rd frameIndex =
     (case frameInfo_at rd frameIndex of
        Inl e \<Rightarrow> Inl e
      | Inr fi \<Rightarrow>
          (let px = replicate (reader_width rd * reader_height rd * 4) (0 :: sample)
           in case reader_blit rd frameIndex of
                Inl e \<Rightarrow> Inl e
              | Inr ws \<Rightarrow>
                  Inr \<lparr> frame_x = info_x fi, frame_y = info_y fi,
                        frame_width = info_width fi, frame_height = info_height fi,
                        delay = info_delay fi, disposal = info_disposal fi,
                        pixels = apply_writes ws px, buffer = None \<rparr>))"

text \<open>\<^verbatim>\<open>Array.prototype.map\<close> with a callback that may throw: the first exception ends it.\<close>

fun array_map :: "('a \<Rightarrow> error + 'b) \<Rightarrow> 'a list \<Rightarrow> error + 'b list" where
  "array_map f [] = Inr []"
| "array_map f (a # as) =
     (case f a of
        Inl e \<Rightarrow> Inl e
      | Inr b \<Rightarrow> (case array_map f as of Inl e \<Rightarrow> Inl e | Inr bs \<Rightarrow> Inr (b # bs)))"

definition decodeFramesSync :: "reader \<Rightarrow> error + frame list" where
  "decodeFramesSync rd = array_map (\<lambda>frameIndex. decodeFrame rd frameIndex) (generateArray (numFrames rd))"

text \<open>
  The \<^verbatim>\<open>for\<close> loop of \<^verbatim>\<open>decodeFramesAsync\<close>. \<^verbatim>\<open>decodeFrame\<close> is synchronous, so the
  array holds frames, and \<^verbatim>\<open>Promise.all\<close> resolves to that array as it is.
\<close>

function decodeFramesAsync_loop :: "reader \<Rightarrow> nat \<Rightarrow> nat \<Rightarrow> frame list \<Rightarrow> error + frame list" where
  "decodeFramesAsync_loop rd frameLength i promises =
     (if i < frameLength then
        (case decodeFrame rd i of
           Inl e \<Rightarrow> Inl e
         | Inr f \<Rightarrow> decodeFramesAsync_loop rd frameLength (i + 1) (promises @ [f]))
      else Inr promises)"
  by pat_completeness auto
termination
  by (relation "measure (\<lambda>(rd, frameLength, i, promises). frameLength - i)") auto

definition decodeFramesAsync :: "reader \<Rightarrow> error + frame list" where
  "decodeFramesAsync rd = (let frameLength = numFrames rd in decodeFramesAsync_loop rd frameLength 0 [])"

section \<open>Animator\<close>

text \<open>
  The animator object, with the part of the host it touches: \<open>timers\<close> are the pending
  \<^verbatim>\<open>setTimeout\<close> callbacks by requested delay (oldest first), \<open>reads\<close> counts the clock
  readings made so far, \<open>calls\<close> logs the DOM calls. \<open>ctx\<close> is \<open>None\<close> until
  \<^verbatim>\<open>animateInCanvas\<close> assigns it and then holds the content of the surface behind the
  context. \<open>disposeFrame\<close> is \<open>None\<close> when the property is undefined or null.
\<close>

record animator =
  frames :: "frame list"
  width :: nat
  height :: nat
  loopCount :: nat
  loops :: nat
  frameIndex :: nat
  running :: bool
  lastTime :: number
  delayCompensation :: number
  ctx :: "canvas option"
  disposeFrame :: "dispose option"
  timers :: "number list"
  reads :: nat
  calls :: "call list"

text \<open>
  The constructor: it assigns seven fields and checks nothing. The other properties are
  undefined until a method assigns them; the host has no timer pending and nothing logged.
\<close>

definition Animator :: "reader \<Rightarrow> frame list \<Rightarrow> animator" where
  "Animator rd fs =
     \<lparr> frames = fs, width = reader_width rd, height = reader_height rd,
       loopCount = reader_loopCount rd, loops = 0, frameIndex = 0, running = False,
       lastTime = None, delayCompensation = None, ctx = None, disposeFrame = None,
       timers = [], reads = 0, calls = [] \<rparr>"

text \<open>\<^verbatim>\<open>this._frames[i]\<close>: \<open>None\<close> is \<^verbatim>\<open>undefined\<close>.\<close>

definition frame_at :: "frame list \<Rightarrow> nat \<Rightarrow> frame option" where
  "frame_at fs i = (if i < length fs then Some (fs ! i) else None)"

text \<open>
  \<^verbatim>\<open>createBufferCanvas\<close>: reading \<^verbatim>\<open>frame.width\<close> of an undefined frame throws. The image
  data has the size of the whole GIF and is put at the negated frame offset.
\<close>

definition createBufferCanvas :: "frame option \<Rightarrow> nat \<Rightarrow> nat \<Rightarrow> error + bufferCanvas" where
  "createBufferCanvas fr w h =
     (case fr of
        None \<Rightarrow> Inl TypeError
      | Some f \<Rightarrow>
          Inr \<lparr> buf_width = frame_width f, buf_height = frame_height f,
                buf_image_width = w, buf_image_height = h, buf_data = pixels f,
                buf_dx = - int (frame_x f), buf_dy = - int (frame_y f) \<rparr>)"

definition start :: "clock \<Rightarrow> animator \<Rightarrow> animator" where
  "start clk s =
     s \<lparr> lastTime := Some (clk (reads s)), reads := Suc (reads s),
         delayCompensation := Some 0, running := True,
         timers := timers s @ [Some 0] \<rparr>"

definition stop :: "animator \<Rightarrow> animator" where
  "stop s = s \<lparr> running := False \<rparr>"

definition reset :: "animator \<Rightarrow> animator" where
  "reset s = s \<lparr> frameIndex := 0, loops := 0 \<rparr>"

definition advanceFrame :: "animator \<Rightarrow> animator" where
  "advanceFrame s =
     (let s1 = s \<lparr> frameIndex := frameIndex s + 1 \<rparr>
      in if frameIndex s1 \<ge> length (frames s1) then
           (if loopCount s1 \<noteq> 0 \<and> loopCount s1 = loops s1 then stop s1
            else s1 \<lparr> frameIndex := 0, loops := loops s1 + 1 \<rparr>)
         else s1)"

text \<open>
  One pass through the body of the \<^verbatim>\<open>while\<close> loop of \<^verbatim>\<open>_enqueueNextFrame\<close>, entered
  with \<^verbatim>\<open>_running\<close> true: \<open>Inl\<close> is \<^verbatim>\<open>continue\<close> with the new state, \<open>Inr\<close> leaves the
  loop (by \<^verbatim>\<open>break\<close>, or by the exception of reading \<^verbatim>\<open>delay\<close> of an undefined frame,
  which comes after the timing fields were updated).
\<close>

definition loop_body :: "clock \<Rightarrow> animator \<Rightarrow> animator + (error option \<times> animator)" where
  "loop_body clk s =
     (let fr = frame_at (frames s) (frameIndex s);
          delta = num_sub (Some (clk (reads s))) (lastTime s);
          s1 = s \<lparr> reads := Suc (reads s),
                   lastTime := num_add (lastTime s) delta,
                   delayCompensation := num_add (delayCompensation s) delta \<rparr>
      in case fr of
           None \<Rightarrow> Inr (Some TypeError, s1)
         | Some f \<Rightarrow>
             (let frameDelay = Some (int (delay f) * 10);
                  actualDelay = num_sub frameDelay (delayCompensation s1);
                  s2 = s1 \<lparr> delayCompensation := num_sub (delayCompensation s1) frameDelay \<rparr>
              in if num_lt0 actualDelay then Inl (advanceFrame s2)
                 else Inr (None, s2 \<lparr> timers := timers s2 @ [actualDelay] \<rparr>)))"

text \<open>The \<^verbatim>\<open>while (this._running)\<close> loop; \<open>None\<close> when it runs forever.\<close>

partial_function (option) enqueue_loop :: "clock \<Rightarrow> animator \<Rightarrow> (error option \<times> animator) option" where
  "enqueue_loop clk s =
     (if running s then
        (case loop_body clk s of
           Inl s' \<Rightarrow> enqueue_loop clk s'
         | Inr r \<Rightarrow> Some r)
      else Some (None, s))"

declare enqueue_loop.simps [code]

definition enqueueNextFrame :: "clock \<Rightarrow> animator \<Rightarrow> (error option \<times> animator) option" where
  "enqueueNextFrame clk s = enqueue_loop clk (advanceFrame s)"

text \<open>
  Calling the closure stored in \<^verbatim>\<open>this.disposeFrame\<close>. It reads \<^verbatim>\<open>this.ctx\<close> when it is
  called. The source names the rectangle by the ambient identifier \<^verbatim>\<open>canvas\<close>; the model
  takes that element to be the one behind \<open>ctx\<close>, so the rectangle is the whole surface.
\<close>

definition run_dispose :: "dispose \<Rightarrow> animator \<Rightarrow> error option \<times> animator" where
  "run_dispose d s =
     (case ctx s of
        None \<Rightarrow> (Some TypeError, s)
      | Some c \<Rightarrow>
          (case d of
             ClearCanvas \<Rightarrow> (None, s \<lparr> ctx := Some Blank, calls := calls s @ [ClearRect] \<rparr>)
           | RestoreSaved saved \<Rightarrow>
               (None, s \<lparr> ctx := Some saved, calls := calls s @ [PutImageData saved] \<rparr>)))"

text \<open>The default \<^verbatim>\<open>onDrawFrame\<close>, called with \<^verbatim>\<open>this.ctx\<close> and the frame at index \<open>i\<close>.\<close>

definition onDrawFrame :: "frame \<Rightarrow> nat \<Rightarrow> animator \<Rightarrow> error option \<times> animator" where
  "onDrawFrame f i s =
     (case ctx s of
        None \<Rightarrow> (Some TypeError, s)
      | Some c \<Rightarrow>
          (case buffer f of
             None \<Rightarrow> (Some TypeError, s)
           | Some b \<Rightarrow>
               (None, s \<lparr> ctx := Some (Drawn c b (frame_x f) (frame_y f)),
                          calls := calls s @ [DrawImage b (frame_x f) (frame_y f)] \<rparr>)))"

text \<open>The \<^verbatim>\<open>switch (frame.disposal)\<close> of \<^verbatim>\<open>onFrame\<close>.\<close>

definition set_disposal :: "frame \<Rightarrow> animator \<Rightarrow> error option \<times> animator" where
  "set_disposal f s =
     (if disposal f = 2 then (None, s \<lparr> disposeFrame := Some ClearCanvas \<rparr>)
      else if disposal f = 3 then
        (case ctx s of
           None \<Rightarrow> (Some TypeError, s)
         | Some c \<Rightarrow>
             (None, s \<lparr> disposeFrame := Some (RestoreSaved c),
                        calls := calls s @ [GetImageData c] \<rparr>))
      else (None, s \<lparr> disposeFrame := None \<rparr>))"

text \<open>
  The default \<^verbatim>\<open>onFrame(frame, i)\<close>. The frame is the object \<^verbatim>\<open>this._frames[i]\<close>, so
  the assignment to \<^verbatim>\<open>frame.buffer\<close> updates that element of the array.
\<close>

definition onFrame :: "nat \<Rightarrow> animator \<Rightarrow> error option \<times> animator" where
  "onFrame i s =
     (case createBufferCanvas (frame_at (frames s) i) (width s) (height s) of
        Inl e \<Rightarrow> (Some e, s)
      | Inr b \<Rightarrow>
          (let f = (frames s ! i) \<lparr> buffer := Some b \<rparr>;
               s1 = s \<lparr> frames := (frames s)[i := f], calls := calls s @ [CreateBuffer i] \<rparr>;
               r1 = (case disposeFrame s1 of None \<Rightarrow> (None, s1) | Some d \<Rightarrow> run_dispose d s1)
           in case fst r1 of
                Some e \<Rightarrow> r1
              | None \<Rightarrow>
                  (let r2 = set_disposal f (snd r1)
                   in case fst r2 of
                        Some e \<Rightarrow> r2
                      | None \<Rightarrow> onDrawFrame f i (snd r2))))"

definition nextFrameRender :: "clock \<Rightarrow> animator \<Rightarrow> (error option \<times> animator) option" where
  "nextFrameRender clk s =
     (if \<not> running s then Some (None, s)
      else (let r = onFrame (frameIndex s) s
            in case fst r of
                 Some e \<Rightarrow> Some r
               | None \<Rightarrow> enqueueNextFrame clk (snd r)))"

text \<open>
  \<^verbatim>\<open>animateInCanvas\<close>: assigning the canvas size blanks the canvas; \<open>cv\<close> is what the
  canvas shows when it is handed over.
\<close>

definition animateInCanvas :: "canvas \<Rightarrow> bool \<Rightarrow> clock \<Rightarrow> animator \<Rightarrow> animator" where
  "animateInCanvas cv setDimensions clk s =
     start clk (s \<lparr> ctx := Some (if setDimensions then Blank else cv) \<rparr>)"

text \<open>
  The host fires the oldest pending timer: its callback \<^verbatim>\<open>_nextFrame\<close> asks for an
  animation frame, which runs \<^verbatim>\<open>_nextFrameRender\<close>. Without a pending timer nothing runs.
\<close>

definition tick :: "clock \<Rightarrow> animator \<Rightarrow> (error option \<times> animator) option" where
  "tick clk s =
     (case timers s of
        [] \<Rightarrow> Some (None, s)
      | d # ds \<Rightarrow> nextFrameRender clk (s \<lparr> timers := ds \<rparr>))"

text \<open>
  \<open>n\<close> timer firings in a row. An exception thrown in a callback is reported by the host
  and does not stop later callbacks; the errors are collected in order.
\<close>

fun ticks :: "clock \<Rightarrow> nat \<Rightarrow> animator \<Rightarrow> (error list \<times> animator) option" where
  "ticks clk 0 s = Some ([], s)"
| "ticks clk (Suc n) s =
     (case tick clk s of
        None \<Rightarrow> None
      | Some r \<Rightarrow>
          (case ticks clk n (snd r) of
             None \<Rightarrow> None
           | Some r' \<Rightarrow> Some ((case fst r of None \<Rightarrow> [] | Some e \<Rightarrow> [e]) @ fst r', snd r')))"

text \<open>The draw calls in a log.\<close>

fun is_draw :: "call \<Rightarrow> bool" where
  "is_draw (DrawImage b x y) = True"
| "is_draw c = False"

definition draws :: "animator \<Rightarrow> nat" where
  "draws s = length (filter is_draw (calls s))"

section \<open>Rendering a sequence of frames\<close>

text \<open>
  What \<^verbatim>\<open>_nextFrameRender\<close> does with the frame at each index of a given sequence
  (\<^verbatim>\<open>this.onFrame(this._frames[i], i)\<close>), one after the other and without the timing;
  an exception ends the sequence.
\<close>

fun renderFrames :: "nat list \<Rightarrow> animator \<Rightarrow> error option \<times> animator" where
  "renderFrames [] s = (None, s)"
| "renderFrames (i # rest) s =
     (let r = onFrame i s
      in case fst r of Some e \<Rightarrow> r | None \<Rightarrow> renderFrames rest (snd r))"

text \<open>The calls made on the drawing surface: the log without the off-screen buffers.\<close>

fun is_surface_call :: "call \<Rightarrow> bool" where
  "is_surface_call (CreateBuffer i) = False"
| "is_surface_call c = True"

definition surface_calls :: "animator \<Rightarrow> call list" where
  "surface_calls s = filter is_surface_call (calls s)"

text \<open>
  The delays, in milliseconds, of the \<open>m\<close> frames from index \<open>i\<close> on, going round the
  frame list.
\<close>

fun delays_from :: "frame list \<Rightarrow> nat \<Rightarrow> nat \<Rightarrow> int" where
  "delays_from fs i 0 = 0"
| "delays_from fs i (Suc m) = int (delay (fs ! (i mod length fs))) * 10 + delays_from fs (Suc i) m"

text \<open>
  A clock under which no frame is skipped, up to the reading \<open>n\<close> after a start that
  read the clock at index \<open>r0\<close>: tick \<open>j\<close> reads the clock once, at index \<open>r0 + j\<close>,
  and by then no more time has passed since the start than the delays of the frames at
  the indices 1, ..., \<open>j\<close> taken round the frame list, which are the waits the engine
  has scheduled so far and the one it is about to schedule. A later reading makes the
  delay to schedule negative, and the frame is skipped.
\<close>

definition on_time :: "clock \<Rightarrow> nat \<Rightarrow> frame list \<Rightarrow> nat \<Rightarrow> bool" where
  "on_time clk r0 fs n \<longleftrightarrow> (\<forall>j<n. clk (r0 + j) - clk r0 \<le> delays_from fs 1 j)"

text \<open>
  The engine \<open>j\<close> ticks after \<open>start\<close> was called on \<open>a\<close>, when no frame was skipped.
\<close>

definition after_ticks :: "clock \<Rightarrow> animator \<Rightarrow> nat \<Rightarrow> animator \<Rightarrow> bool" where
  "after_ticks clk a j s \<longleftrightarrow>
     running s \<and> frameIndex s = j mod length (frames a) \<and> loops s = j div length (frames a) \<and>
     loopCount s = loopCount a \<and> map delay (frames s) = map delay (frames a) \<and>
     lastTime s = Some (clk (reads a + j)) \<and>
     delayCompensation s = Some (clk (reads a + j) - clk (reads a) - delays_from (frames a) 1 j) \<and>
     reads s = Suc (reads a + j) \<and>
     timers s = [Some (delays_from (frames a) 1 j - (clk (reads a + j) - clk (reads a)))] \<and>
     ctx s \<noteq> None \<and> draws s = draws a + j"

section \<open>Concrete inputs\<close>

text \<open>A reader for a 2 by 2 GIF whose only frame is the 1 by 1 region at (1, 1).\<close>

definition rd0 :: reader where
  "rd0 = \<lparr> reader_width = 2, reader_height = 2, reader_loopCount = 1,
          reader_frames = [\<lparr> info_x = 1, info_y = 1, info_width = 1, info_height = 1,
                             info_delay = 10, info_disposal = 0 \<rparr>],
          reader_blit = (\<lambda>i. Inr [(12, 255), (15, 255)]) \<rparr>"

text \<open>The frame \<open>decodeFrame\<close> makes of it.\<close>

definition dec0 :: frame where
  "dec0 = \<lparr> frame_x = 1, frame_y = 1, frame_width = 1, frame_height = 1, delay = 10,
            disposal = 0,
            pixels = [0, 0, 0, 0, 0, 0, 0, 0, 0, 0, 0, 0, 255, 0, 0, 255],
            buffer = None \<rparr>"

text \<open>A clock that advances by 7 ms from one reading to the next, and one that stands still.\<close>

definition stepping :: clock where
  "stepping k = 7 * int k"

definition frozen :: clock where
  "frozen k = 0"

text \<open>Two more frames of a 2 by 2 GIF, with disposal 2 and 3, and the buffers of all three.\<close>

definition dec2 :: frame where
  "dec2 = \<lparr> frame_x = 0, frame_y = 0, frame_width = 2, frame_height = 1, delay = 20,
            disposal = 2,
            pixels = [9, 9, 9, 255, 9, 9, 9, 255, 0, 0, 0, 0, 0, 0, 0, 0],
            buffer = None \<rparr>"

definition dec3 :: frame where
  "dec3 = \<lparr> frame_x = 0, frame_y = 1, frame_width = 2, frame_height = 1, delay = 5,
            disposal = 3,
            pixels = [0, 0, 0, 0, 0, 0, 0, 0, 7, 7, 7, 255, 7, 7, 7, 255],
            buffer = None \<rparr>"

definition buf0 :: bufferCanvas where
  "buf0 = \<lparr> buf_width = 1, buf_height = 1, buf_image_width = 2, buf_image_height = 2,
            buf_data = [0, 0, 0, 0, 0, 0, 0, 0, 0, 0, 0, 0, 255, 0, 0, 255],
            buf_dx = - 1, buf_dy = - 1 \<rparr>"

definition buf2 :: bufferCanvas where
  "buf2 = \<lparr> buf_width = 2, buf_height = 1, buf_image_width = 2, buf_image_height = 2,
            buf_data = [9, 9, 9, 255, 9, 9, 9, 255, 0, 0, 0, 0, 0, 0, 0, 0],
            buf_dx = 0, buf_dy = 0 \<rparr>"

definition buf3 :: bufferCanvas where
  "buf3 = \<lparr> buf_width = 2, buf_height = 1, buf_image_width = 2, buf_image_height = 2,
            buf_data = [0, 0, 0, 0, 0, 0, 0, 0, 7, 7, 7, 255, 7, 7, 7, 255],
            buf_dx = 0, buf_dy = - 1 \<rparr>"

text \<open>
  The one-frame animation of \<open>rd0\<close> (loop count 1) started in a canvas, and a two-frame
  animation after its frame 1, of disposal 2, was rendered.
\<close>

definition playing :: animator where
  "playing = animateInCanvas Blank True frozen (Animator rd0 [dec0])"

definition pending :: animator where
  "pending = snd (onFrame 1 (animateInCanvas Blank True frozen (Animator rd0 [dec0, dec2])))"

text \<open>
  A three-frame animation with delays 10, 20 and 5 and loop count 1, started under a
  clock that reads 0 at the start and 260 ms from then on; the same after the first
  tick has drawn frame 0.
\<close>

definition late :: clock where
  "late k = (if k = 0 then 0 else 260)"

definition started3 :: animator where
  "started3 = animateInCanvas Blank True late (Animator rd0 [dec0, dec2, dec3])"

definition drawn3 :: animator where
  "drawn3 = snd (onFrame 0 (started3 \<lparr> timers := [] \<rparr>))"

text \<open>
  The same animation under a clock that reads 0 at the start and at the first tick and
  300 ms from the second tick on, with the states after the first and the second tick.
\<close>

definition stall :: clock where
  "stall k = (if k \<le> 1 then 0 else 300)"

definition stall0 :: animator where
  "stall0 = animateInCanvas Blank True stall (Animator rd0 [dec0, dec2, dec3])"

definition stall1 :: animator where
  "stall1 = (snd (onFrame 0 (stall0 \<lparr> timers := [] \<rparr>)))
     \<lparr> frameIndex := 1, reads := 2, lastTime := Some 0, delayCompensation := Some (- 200),
       timers := [Some 200] \<rparr>"

definition stall2 :: animator where
  "stall2 = (snd (onFrame 1 (stall1 \<lparr> timers := [] \<rparr>)))
     \<lparr> frameIndex := 0, loops := 1, reads := 4, lastTime := Some 300,
       delayCompensation := Some (- 50), timers := [Some 50] \<rparr>"

text \<open>A two-frame animation whose frame 0 has disposal 3.\<close>

definition two :: animator where
  "two = animateInCanvas Blank True frozen (Animator rd0 [dec3, dec0])"

text \<open>
  A clock for the three frames with delays 10, 20 and 5: every tick fires exactly when
  it is due.
\<close>

definition exact3 :: clock where
  "exact3 k = (if k = 0 then 0 else delays_from [dec0, dec2, dec3] 1 (k - 1))"

section \<open>Decoder: properties\<close>

declare decodeFramesAsync_loop.simps [simp del]

lemma decodeFramesAsync_loop_map:
  "decodeFramesAsync_loop rd n i acc =
     (case array_map (decodeFrame rd) [i..<n] of Inl e \<Rightarrow> Inl e | Inr fs \<Rightarrow> Inr (acc @ fs))"
proof (induction rd n i acc rule: decodeFramesAsync_loop.induct)
  case (1 rd n i acc)
  show ?case
  proof (cases "i < n")
    case False
    then show ?thesis by (subst decodeFramesAsync_loop.simps) simp
  next
    case True
    then have upt: "[i..<n] = i # [i + 1..<n]" by (simp add: upt_conv_Cons)
    show ?thesis
    proof (cases "decodeFrame rd i")
      case (Inl e)
      with True upt show ?thesis by (subst decodeFramesAsync_loop.simps) simp
    next
      case (Inr f)
      with True upt "1.IH" [OF True Inr] show ?thesis
        by (subst decodeFramesAsync_loop.simps) (simp split: sum.splits)
    qed
  qed
qed

text \<open>
  C9. For every reader, \<open>decodeFramesAsync\<close> and \<open>decodeFramesSync\<close> give the same result:
  the same frames in the same order, or the same exception.
\<close>

theorem decodeFramesAsync_eq_decodeFramesSync: "decodeFramesAsync rd = decodeFramesSync rd"
  by (simp add: decodeFramesAsync_def decodeFramesSync_def generateArray_def
      decodeFramesAsync_loop_map split: sum.splits)

lemma length_apply_writes: "length (apply_writes ws px) = length px"
  by (induction ws px rule: apply_writes.induct) simp_all

lemma decodeFrame_rd0: "decodeFrame rd0 0 = Inr dec0"
  by (simp add: decodeFrame_def rd0_def dec0_def frameInfo_at_def eval_nat_numeral)

text \<open>
  C5, as stated, fails: the frame of \<open>rd0\<close> is 1 by 1, so the claim gives 4 samples, and
  its pixel buffer has the 16 samples of the 2 by 2 canvas.
\<close>

theorem decodeFrame_pixels_not_frame_extent:
  "decodeFrame rd0 0 = Inr dec0 \<and> length (pixels dec0) = 16 \<and>
   frame_width dec0 * frame_height dec0 * 4 = 4"
  by (simp add: decodeFrame_rd0) (simp add: dec0_def)

text \<open>
  C5, amended. The pixel buffer of every decoded frame has length
  \<open>reader.width * reader.height * 4\<close>: four samples per pixel of the whole canvas,
  whatever the extent of the frame's own region.
\<close>

theorem decodeFrame_pixels_length:
  "decodeFrame rd i = Inr f \<Longrightarrow> length (pixels f) = reader_width rd * reader_height rd * 4"
  by (auto simp: decodeFrame_def Let_def length_apply_writes split: sum.splits)

theorem decodeFrame_pixels_length_witness:
  "decodeFrame rd0 0 = Inr dec0 \<and> length (pixels dec0) = reader_width rd0 * reader_height rd0 * 4"
  using decodeFrame_pixels_length [OF decodeFrame_rd0] by (simp add: decodeFrame_rd0)

section \<open>Animator: construction and start\<close>

text \<open>
  C7, as stated, fails: the constructor takes the empty sequence and returns an animator
  with no frames. The empty sequence shows only at the first render tick, as a
  \<open>TypeError\<close>.
\<close>

theorem Animator_empty_frames:
  "length (frames (Animator rd0 [])) = 0 \<and>
   tick stepping (animateInCanvas Blank True stepping (Animator rd0 []))
     = Some (Some TypeError, (animateInCanvas Blank True stepping (Animator rd0 [])) \<lparr> timers := [] \<rparr>)"
  by (simp add: Animator_def animateInCanvas_def start_def tick_def nextFrameRender_def
      onFrame_def createBufferCanvas_def frame_at_def)

text \<open>
  C7, amended. Constructing the animator never fails and checks nothing: for every
  sequence of decoded frames, the empty one too, it returns an animator that holds
  exactly that sequence, takes size and loop count from the reader, and is stopped at
  frame 0 with no loop counted.
\<close>

theorem Animator_accepts_any_frames:
  "frames (Animator rd fs) = fs \<and>
   width (Animator rd fs) = reader_width rd \<and> height (Animator rd fs) = reader_height rd \<and>
   loopCount (Animator rd fs) = reader_loopCount rd \<and>
   loops (Animator rd fs) = 0 \<and> frameIndex (Animator rd fs) = 0 \<and> \<not> running (Animator rd fs)"
  by (simp add: Animator_def)

text \<open>
  C4, as stated, fails: on an engine that is running with one tick pending, \<open>start\<close>
  sets \<open>lastTime\<close> anew and leaves two ticks pending.
\<close>

theorem start_not_idempotent:
  "running (animateInCanvas Blank True stepping (Animator rd0 [dec0])) \<and>
   lastTime (animateInCanvas Blank True stepping (Animator rd0 [dec0])) = Some 0 \<and>
   timers (animateInCanvas Blank True stepping (Animator rd0 [dec0])) = [Some 0] \<and>
   lastTime (start stepping (animateInCanvas Blank True stepping (Animator rd0 [dec0]))) = Some 7 \<and>
   timers (start stepping (animateInCanvas Blank True stepping (Animator rd0 [dec0])))
     = [Some 0, Some 0]"
  by (simp add: animateInCanvas_def start_def Animator_def stepping_def)

text \<open>
  C4, amended. \<open>start\<close> has no guard: whether or not the engine is running, it sets
  \<open>running\<close>, sets \<open>lastTime\<close> to the current host time and \<open>delayCompensation\<close> to 0, and
  schedules one more render with zero delay after the ticks already pending; frame
  index, loop counter, frames and pending disposal stay as they are.
\<close>

theorem start_effect:
  "running (start clk s) \<and>
   lastTime (start clk s) = Some (clk (reads s)) \<and>
   delayCompensation (start clk s) = Some 0 \<and>
   timers (start clk s) = timers s @ [Some 0] \<and>
   frameIndex (start clk s) = frameIndex s \<and> loops (start clk s) = loops s \<and>
   frames (start clk s) = frames s \<and> disposeFrame (start clk s) = disposeFrame s \<and>
   ctx (start clk s) = ctx s \<and> calls (start clk s) = calls s"
  by (simp add: start_def)

section \<open>Animator: reset, buffers, frame index\<close>

lemmas onFrame_defs = onFrame_def createBufferCanvas_def frame_at_def run_dispose_def
  set_disposal_def onDrawFrame_def Let_def

lemma pending_facts:
  "disposeFrame pending = Some ClearCanvas" "ctx pending = Some (Drawn Blank buf2 0 0)"
  "frames pending = [dec0, dec2 \<lparr> buffer := Some buf2 \<rparr>]" "running pending"
  "calls pending = [CreateBuffer 1, DrawImage buf2 0 0]"
  "width pending = 2" "height pending = 2"
  by (simp_all add: pending_def animateInCanvas_def start_def Animator_def onFrame_defs
      rd0_def dec0_def dec2_def buf2_def)

lemma createBufferCanvas_dec0: "createBufferCanvas (Some dec0) 2 2 = Inr buf0"
  by (simp add: createBufferCanvas_def dec0_def buf0_def)

text \<open>
  C10. \<open>reset\<close> sets the frame index and the loop counter to 0 and leaves every other
  field as it is: the running flag, \<open>lastTime\<close>, \<open>delayCompensation\<close> and the pending
  disposal among them. A disposal \<open>d\<close> pending at the reset is therefore still run when
  frame 0 is rendered next (which the next render tick of a running engine does): the
  log grows by the buffer of frame 0, the clear or restore of \<open>d\<close>, the snapshot if frame 0
  has disposal 3, and then the draw of frame 0.
\<close>

theorem reset_effect:
  "running (reset s) = running s \<and> lastTime (reset s) = lastTime s \<and>
   delayCompensation (reset s) = delayCompensation s \<and>
   disposeFrame (reset s) = disposeFrame s \<and>
   frames (reset s) = frames s \<and> loopCount (reset s) = loopCount s \<and>
   ctx (reset s) = ctx s \<and> timers (reset s) = timers s \<and> calls (reset s) = calls s \<and>
   frameIndex (reset s) = 0 \<and> loops (reset s) = 0 \<and>
   (disposeFrame s = Some d \<longrightarrow> ctx s = Some c \<longrightarrow> frames s \<noteq> [] \<longrightarrow>
      (\<exists>b. createBufferCanvas (Some (frames s ! 0)) (width s) (height s) = Inr b \<and>
        fst (onFrame 0 (reset s)) = None \<and>
        calls (snd (onFrame 0 (reset s))) =
          calls s @ [CreateBuffer 0,
                     (case d of ClearCanvas \<Rightarrow> ClearRect | RestoreSaved sv \<Rightarrow> PutImageData sv)]
                  @ (if disposal (frames s ! 0) = 3
                     then [GetImageData (case d of ClearCanvas \<Rightarrow> Blank | RestoreSaved sv \<Rightarrow> sv)]
                     else [])
                  @ [DrawImage b (frame_x (frames s ! 0)) (frame_y (frames s ! 0))] \<and>
        (running s \<longrightarrow>
           nextFrameRender clk (reset s) = enqueueNextFrame clk (snd (onFrame 0 (reset s))))))"
  by (cases d) (auto simp: reset_def onFrame_defs nextFrameRender_def)

theorem reset_effect_witness:
  "disposeFrame pending = Some ClearCanvas \<and> ctx pending = Some (Drawn Blank buf2 0 0) \<and>
   frames pending \<noteq> [] \<and> running pending \<and>
   calls (snd (onFrame 0 (reset pending)))
     = [CreateBuffer 1, DrawImage buf2 0 0, CreateBuffer 0, ClearRect, DrawImage buf0 1 1]"
  using reset_effect [of pending ClearCanvas "Drawn Blank buf2 0 0" frozen]
  by (simp add: pending_facts createBufferCanvas_dec0) (simp add: dec0_def)

text \<open>
  C6: the code at the failing input. The one-frame animation \<open>playing\<close> draws its frame
  twice; the second render finds the buffer of the first in \<open>frame.buffer\<close> and builds
  another one all the same.
\<close>

theorem onFrame_rebuilds_buffer:
  "(case ticks frozen 2 playing of
      Some ([], s) \<Rightarrow>
        filter (\<lambda>c. c = CreateBuffer 0) (calls s) = [CreateBuffer 0, CreateBuffer 0] \<and>
        length (frames s) = 1
    | _ \<Rightarrow> False) \<and>
   buffer (frames (snd (onFrame 0 playing)) ! 0) = Some buf0 \<and>
   calls (snd (onFrame 0 (snd (onFrame 0 playing))))
     = [CreateBuffer 0, DrawImage buf0 1 1, CreateBuffer 0, DrawImage buf0 1 1]"
  by code_simp

text \<open>
  C8: the code at the failing input. After the two ticks that exhaust loop count 1 of
  the one-frame animation, the engine has stopped with \<open>frameIndex = 1\<close>, the number of
  frames; a \<open>start\<close> from there makes the next tick read \<^verbatim>\<open>this._frames[1]\<close> and throw.
\<close>

theorem frameIndex_out_of_range_after_auto_stop:
  "(case ticks frozen 2 playing of
      Some ([], s) \<Rightarrow>
        \<not> running s \<and> timers s = [] \<and> length (frames s) = 1 \<and> frameIndex s = 1 \<and>
        (case tick frozen (start frozen s) of
           Some (Some TypeError, s') \<Rightarrow> frameIndex s' = 1 \<and> running s'
         | _ \<Rightarrow> False)
    | _ \<Rightarrow> False)"
  by code_simp

section \<open>Animator: disposal\<close>

text \<open>
  C3, as stated, fails when frame 1 has a disposal of its own: with disposal 2 on
  frame 1 the canvas is cleared before the second snapshot, so the trace of
  [0, 1, 0, 1] has nine calls.
\<close>

theorem disposal_trace_with_clear:
  "surface_calls (snd (renderFrames [0, 1, 0, 1]
       (animateInCanvas Blank True frozen (Animator rd0 [dec3, dec2]))))
   = [GetImageData Blank, DrawImage buf3 0 1,
      PutImageData Blank, DrawImage buf2 0 0,
      ClearRect, GetImageData Blank, DrawImage buf3 0 1,
      PutImageData Blank, DrawImage buf2 0 0]"
  by code_simp

text \<open>
  C3, amended. For a 2-frame animation where frame 0 has disposal 3 (restore to
  previous) and frame 1 has neither disposal 2 nor 3, rendering the frames [0, 1, 0, 1]
  on a surface showing \<open>c\<close>, with no disposal pending, makes exactly these surface calls:
  snapshot of \<open>c\<close>, draw f0; restore \<open>c\<close>, draw f1; snapshot of the canvas as it is then
  (f1 over \<open>c\<close>), draw f0; restore that snapshot, draw f1. Each snapshot is taken before
  its frame is drawn, and each restore comes right before the next frame's draw.
\<close>

theorem disposal_trace:
  assumes "length (frames s) = 2"
    and "disposal (frames s ! 0) = 3"
    and "disposal (frames s ! 1) \<noteq> 2" and "disposal (frames s ! 1) \<noteq> 3"
    and "ctx s = Some c" and "disposeFrame s = None"
  shows "\<exists>b0 b1. createBufferCanvas (Some (frames s ! 0)) (width s) (height s) = Inr b0 \<and>
      createBufferCanvas (Some (frames s ! 1)) (width s) (height s) = Inr b1 \<and>
      fst (renderFrames [0, 1, 0, 1] s) = None \<and>
      surface_calls (snd (renderFrames [0, 1, 0, 1] s)) =
        surface_calls s @
        [GetImageData c,
         DrawImage b0 (frame_x (frames s ! 0)) (frame_y (frames s ! 0)),
         PutImageData c,
         DrawImage b1 (frame_x (frames s ! 1)) (frame_y (frames s ! 1)),
         GetImageData (Drawn c b1 (frame_x (frames s ! 1)) (frame_y (frames s ! 1))),
         DrawImage b0 (frame_x (frames s ! 0)) (frame_y (frames s ! 0)),
         PutImageData (Drawn c b1 (frame_x (frames s ! 1)) (frame_y (frames s ! 1))),
         DrawImage b1 (frame_x (frames s ! 1)) (frame_y (frames s ! 1))]"
proof -
  from assms(1) obtain f0 f1 where fs: "frames s = [f0, f1]"
    by (cases "frames s"; cases "tl (frames s)") auto
  with assms show ?thesis
    by (simp add: onFrame_defs surface_calls_def)
qed

lemma two_facts:
  "length (frames two) = 2" "disposal (frames two ! 0) = 3" "disposal (frames two ! 1) \<noteq> 2"
  "disposal (frames two ! 1) \<noteq> 3" "ctx two = Some Blank" "disposeFrame two = None"
  "surface_calls two = []" "frames two ! 0 = dec3" "frames two ! 1 = dec0"
  "width two = 2" "height two = 2"
  by (simp_all add: two_def animateInCanvas_def start_def Animator_def dec3_def dec0_def
      surface_calls_def rd0_def)

lemma createBufferCanvas_dec3: "createBufferCanvas (Some dec3) 2 2 = Inr buf3"
  by (simp add: createBufferCanvas_def dec3_def buf3_def)

theorem disposal_trace_witness:
  "length (frames two) = 2 \<and> disposal (frames two ! 0) = 3 \<and> disposal (frames two ! 1) \<noteq> 2 \<and>
   disposal (frames two ! 1) \<noteq> 3 \<and> ctx two = Some Blank \<and> disposeFrame two = None \<and>
   surface_calls (snd (renderFrames [0, 1, 0, 1] two)) =
     [GetImageData Blank, DrawImage buf3 0 1, PutImageData Blank, DrawImage buf0 1 1,
      GetImageData (Drawn Blank buf0 1 1), DrawImage buf3 0 1,
      PutImageData (Drawn Blank buf0 1 1), DrawImage buf0 1 1]"
proof -
  obtain b0 b1 where b0: "createBufferCanvas (Some (frames two ! 0)) (width two) (height two) = Inr b0"
    and b1: "createBufferCanvas (Some (frames two ! 1)) (width two) (height two) = Inr b1"
    and tr: "surface_calls (snd (renderFrames [0, 1, 0, 1] two)) =
        surface_calls two @
        [GetImageData Blank,
         DrawImage b0 (frame_x (frames two ! 0)) (frame_y (frames two ! 0)),
         PutImageData Blank,
         DrawImage b1 (frame_x (frames two ! 1)) (frame_y (frames two ! 1)),
         GetImageData (Drawn Blank b1 (frame_x (frames two ! 1)) (frame_y (frames two ! 1))),
         DrawImage b0 (frame_x (frames two ! 0)) (frame_y (frames two ! 0)),
         PutImageData (Drawn Blank b1 (frame_x (frames two ! 1)) (frame_y (frames two ! 1))),
         DrawImage b1 (frame_x (frames two ! 1)) (frame_y (frames two ! 1))]"
    using disposal_trace [OF two_facts(1-6)] by blast
  from b0 b1 have "b0 = buf3" "b1 = buf0"
    by (simp_all only: two_facts createBufferCanvas_dec0 createBufferCanvas_dec3 sum.inject)
  with tr have "surface_calls (snd (renderFrames [0, 1, 0, 1] two)) =
     [GetImageData Blank, DrawImage buf3 0 1, PutImageData Blank, DrawImage buf0 1 1,
      GetImageData (Drawn Blank buf0 1 1), DrawImage buf3 0 1,
      PutImageData (Drawn Blank buf0 1 1), DrawImage buf0 1 1]"
    by (simp only: two_facts append_Nil) (simp add: dec0_def dec3_def)
  with two_facts(1-6) show ?thesis by blast
qed

section \<open>Animator: the advance-and-delay loop\<close>

lemma delays_from_nonneg: "0 \<le> delays_from fs i m"
  by (induction m arbitrary: i) simp_all

lemma delays_from_mod: "delays_from fs (i mod length fs) m = delays_from fs i m"
proof (induction m arbitrary: i)
  case 0
  show ?case by simp
next
  case (Suc m)
  have "delays_from fs (Suc (i mod length fs)) m = delays_from fs (Suc i) m"
    using Suc [of "Suc (i mod length fs)"] Suc [of "Suc i"] by (simp add: mod_Suc_eq)
  then show ?case by simp
qed

lemma advanceFrame_wraps:
  assumes "frameIndex s < length (frames s)"
    and "\<not> (Suc (frameIndex s) = length (frames s) \<and> loopCount s \<noteq> 0 \<and> loopCount s = loops s)"
  shows "advanceFrame s =
     s \<lparr> frameIndex := Suc (frameIndex s) mod length (frames s),
         loops := loops s + Suc (frameIndex s) div length (frames s) \<rparr>"
proof (cases "Suc (frameIndex s) < length (frames s)")
  case True
  then show ?thesis by (simp add: advanceFrame_def Let_def)
next
  case False
  with assms have e: "Suc (frameIndex s) = length (frames s)" by simp
  then have "length (frames s) div length (frames s) = 1"
    by (metis Zero_not_Suc div_self)
  with e assms show ?thesis by (auto simp: advanceFrame_def Let_def)
qed

lemma loop_body_break:
  assumes "frameIndex s < length (frames s)"
    and "lastTime s = Some lt" and "delayCompensation s = Some dc"
    and "clk (reads s) = now"
    and "dc + (now - lt) \<le> int (delay (frames s ! frameIndex s)) * 10"
  shows "loop_body clk s =
     Inr (None, s \<lparr> reads := Suc (reads s), lastTime := Some now,
                    delayCompensation :=
                      Some (dc + (now - lt) - int (delay (frames s ! frameIndex s)) * 10),
                    timers := timers s @
                      [Some (int (delay (frames s ! frameIndex s)) * 10 - (dc + (now - lt)))] \<rparr>)"
  using assms
  by (simp add: loop_body_def frame_at_def num_add_def num_sub_def num_lt0_def Let_def)

lemma loop_body_continue:
  assumes "frameIndex s < length (frames s)"
    and "lastTime s = Some lt" and "delayCompensation s = Some dc"
    and "clk (reads s) = now"
    and "int (delay (frames s ! frameIndex s)) * 10 < dc + (now - lt)"
  shows "loop_body clk s =
     Inl (advanceFrame (s \<lparr> reads := Suc (reads s), lastTime := Some now,
                    delayCompensation :=
                      Some (dc + (now - lt) - int (delay (frames s ! frameIndex s)) * 10) \<rparr>))"
  using assms
  by (simp add: loop_body_def frame_at_def num_add_def num_sub_def num_lt0_def Let_def)

lemma div_mod_step:
  fixes i m n :: nat
  shows "(Suc i mod n + m) mod n = (i + Suc m) mod n"
    and "Suc i div n + (Suc i mod n + m) div n = (i + Suc m) div n"
proof -
  show "(Suc i mod n + m) mod n = (i + Suc m) mod n"
    by (simp add: mod_add_left_eq)
  have "(Suc i + m) div n = Suc i div n + m div n + (Suc i mod n + m mod n) div n"
    by (rule div_add1_eq)
  moreover have "(Suc i mod n + m) div n = (Suc i mod n) div n + m div n + (Suc i mod n mod n + m mod n) div n"
    by (rule div_add1_eq)
  ultimately show "Suc i div n + (Suc i mod n + m) div n = (i + Suc m) div n"
    by (cases "n = 0") simp_all
qed

lemma enqueue_loop_skips:
  assumes "running s" and "frameIndex s < length (frames s)"
    and "lastTime s = Some lt" and "delayCompensation s = Some dc"
    and "\<forall>j\<le>m. clk (reads s + j) = now"
    and "m = 0 \<or> delays_from (frames s) (frameIndex s) m < dc + (now - lt)"
    and "dc + (now - lt) \<le> delays_from (frames s) (frameIndex s) (Suc m)"
    and "loopCount s = 0 \<or> loops s + (frameIndex s + m) div length (frames s) \<le> loopCount s"
  shows "enqueue_loop clk s =
     Some (None, s \<lparr> frameIndex := (frameIndex s + m) mod length (frames s),
                     loops := loops s + (frameIndex s + m) div length (frames s),
                     reads := reads s + Suc m,
                     lastTime := Some now,
                     delayCompensation :=
                       Some (dc + (now - lt) - delays_from (frames s) (frameIndex s) (Suc m)),
                     timers := timers s @
                       [Some (delays_from (frames s) (frameIndex s) (Suc m) - (dc + (now - lt)))] \<rparr>)"
  using assms
proof (induction m arbitrary: s lt dc)
  case 0
  let ?d = "int (delay (frames s ! frameIndex s)) * 10"
  have now0: "clk (reads s) = now" using "0.prems"(5) by simp
  have d: "delays_from (frames s) (frameIndex s) (Suc 0) = ?d"
    using "0.prems"(2) by simp
  have le: "dc + (now - lt) \<le> ?d" using "0.prems"(7) d by simp
  have body: "loop_body clk s = Inr (None, s \<lparr> reads := Suc (reads s), lastTime := Some now,
        delayCompensation := Some (dc + (now - lt) - ?d),
        timers := timers s @ [Some (?d - (dc + (now - lt)))] \<rparr>)"
    by (rule loop_body_break [where clk = clk and now = now, OF "0.prems"(2) "0.prems"(3) "0.prems"(4) now0 le])
  have "enqueue_loop clk s = Some (None, s \<lparr> reads := Suc (reads s), lastTime := Some now,
        delayCompensation := Some (dc + (now - lt) - ?d),
        timers := timers s @ [Some (?d - (dc + (now - lt)))] \<rparr>)"
    by (subst enqueue_loop.simps) (simp add: body "0.prems"(1))
  then show ?case
    using "0.prems"(2) by (simp only: d add_0_right mod_less div_less) simp
next
  case (Suc m)
  let ?N = "length (frames s)"
  let ?i = "frameIndex s"
  let ?d = "int (delay (frames s ! ?i)) * 10"
  let ?D = "dc + (now - lt)"
  let ?s2 = "s \<lparr> reads := Suc (reads s), lastTime := Some now,
                  delayCompensation := Some (?D - ?d) \<rparr>"
  let ?s3 = "?s2 \<lparr> frameIndex := Suc ?i mod ?N, loops := loops s + Suc ?i div ?N \<rparr>"
  have N: "0 < ?N" using Suc.prems(2) by (cases "frames s") simp_all
  have now0: "clk (reads s) = now" using Suc.prems(5) by (metis add.right_neutral le0)
  have split1: "delays_from (frames s) ?i (Suc m) = ?d + delays_from (frames s) (Suc ?i) m"
    using Suc.prems(2) by simp
  have split2: "delays_from (frames s) ?i (Suc (Suc m)) =
      ?d + delays_from (frames s) (Suc ?i) (Suc m)"
    using Suc.prems(2) by (simp del: delays_from.simps add: delays_from.simps(2) [of _ ?i])
  have late: "?d < ?D"
    using Suc.prems(6) split1 delays_from_nonneg [of "frames s" "Suc ?i" m] by linarith
  have body: "loop_body clk s = Inl (advanceFrame ?s2)"
    by (rule loop_body_continue [where clk = clk and now = now, OF Suc.prems(2) Suc.prems(3) Suc.prems(4) now0 late])
  have nostop: "\<not> (Suc ?i = ?N \<and> loopCount s \<noteq> 0 \<and> loopCount s = loops s)"
  proof
    assume a: "Suc ?i = ?N \<and> loopCount s \<noteq> 0 \<and> loopCount s = loops s"
    then have "?i + Suc m = ?N + m" by simp
    then have "(?i + Suc m) div ?N = (?N + m) div ?N" by (simp only:)
    also have "(?N + m) div ?N = Suc (m div ?N)" using N div_add_self1 [of ?N m] by simp
    finally have "(?i + Suc m) div ?N = Suc (m div ?N)" .
    with a Suc.prems(8) show False by linarith
  qed
  have adv: "advanceFrame ?s2 = ?s3"
    using advanceFrame_wraps [of ?s2] Suc.prems(2) nostop by simp
  have unfold: "enqueue_loop clk s = enqueue_loop clk ?s3"
    by (subst enqueue_loop.simps) (simp add: body adv Suc.prems(1))
  have i3: "frameIndex ?s3 < length (frames ?s3)" using N by simp
  have clk3: "\<forall>j\<le>m. clk (reads ?s3 + j) = now"
  proof (intro allI impI)
    fix j assume "j \<le> m"
    then have "Suc j \<le> Suc m" by simp
    with Suc.prems(5) have "clk (reads s + Suc j) = now" by blast
    then show "clk (reads ?s3 + j) = now" by simp
  qed
  have lo: "m = 0 \<or> delays_from (frames ?s3) (frameIndex ?s3) m < (?D - ?d) + (now - now)"
    using Suc.prems(6) split1 by (simp add: delays_from_mod)
  have hi: "(?D - ?d) + (now - now) \<le> delays_from (frames ?s3) (frameIndex ?s3) (Suc m)"
    using Suc.prems(7) split2 by (simp add: delays_from_mod del: delays_from.simps)
  have cnt: "loopCount ?s3 = 0 \<or>
      loops ?s3 + (frameIndex ?s3 + m) div length (frames ?s3) \<le> loopCount ?s3"
    using Suc.prems(8) div_mod_step(2) [of ?i ?N m] by (simp add: add.assoc)
  have run3: "running ?s3" using Suc.prems(1) by simp
  have lt3: "lastTime ?s3 = Some now" by simp
  have dc3: "delayCompensation ?s3 = Some (?D - ?d)" by simp
  note IH = Suc.IH [OF run3 i3 lt3 dc3 clk3 lo hi cnt]
  have dm: "delays_from (frames s) (Suc ?i mod ?N) (Suc m) = delays_from (frames s) (Suc ?i) (Suc m)"
    by (rule delays_from_mod)
  show ?case
    unfolding unfold IH
    using div_mod_step [of ?i ?N m] dm split2
    by (simp del: delays_from.simps add: add.assoc)
qed

lemma advanceFrame_keeps:
  "timers (advanceFrame s) = timers s" "calls (advanceFrame s) = calls s"
  "lastTime (advanceFrame s) = lastTime s"
  "delayCompensation (advanceFrame s) = delayCompensation s"
  by (simp_all add: advanceFrame_def stop_def Let_def)

lemma loop_body_Inl:
  assumes "loop_body clk s = Inl s'"
  shows "timers s' = timers s \<and> calls s' = calls s \<and>
    (lastTime s \<noteq> None \<and> delayCompensation s \<noteq> None \<longrightarrow>
       lastTime s' \<noteq> None \<and> delayCompensation s' \<noteq> None)"
  using assms
  by (auto simp: loop_body_def Let_def advanceFrame_keeps num_add_def num_sub_def
      split: option.splits if_splits)

lemma loop_body_Inr:
  assumes "loop_body clk s = Inr r"
  shows "calls (snd r) = calls s \<and>
    (timers (snd r) = timers s \<or>
     (\<exists>d. timers (snd r) = timers s @ [d] \<and> (\<forall>x. d = Some x \<longrightarrow> 0 \<le> x) \<and>
        (lastTime s \<noteq> None \<and> delayCompensation s \<noteq> None \<longrightarrow> d \<noteq> None)))"
  using assms
  by (auto simp: loop_body_def Let_def num_add_def num_sub_def num_lt0_def
      split: option.splits if_splits)

lemma enqueue_loop_schedules:
  assumes "enqueue_loop clk s = Some r"
  shows "calls (snd r) = calls s \<and>
    (timers (snd r) = timers s \<or>
     (\<exists>d. timers (snd r) = timers s @ [d] \<and> (\<forall>x. d = Some x \<longrightarrow> 0 \<le> x) \<and>
        (lastTime s \<noteq> None \<and> delayCompensation s \<noteq> None \<longrightarrow> d \<noteq> None)))"
  using assms
proof (induction clk s r rule: enqueue_loop.raw_induct [rotated 1, consumes 1])
  case (1 loop clk s r)
  show ?case
  proof (cases "running s")
    case False
    with "1.hyps" have "r = (None, s)" by simp
    then show ?thesis by simp
  next
    case True
    show ?thesis
    proof (cases "loop_body clk s")
      case (Inl s')
      with True "1.hyps" have "loop clk s' = Some r" by simp
      from "1.IH" [OF this] loop_body_Inl [OF Inl] show ?thesis by auto
    next
      case (Inr r')
      with True "1.hyps" have "r' = r" by simp
      with loop_body_Inr [OF Inr] show ?thesis by simp
    qed
  qed
qed

lemma enqueueNextFrame_skips:
  assumes "running s" and "frameIndex s < length (frames s)"
    and "lastTime s = Some lt" and "delayCompensation s = Some dc"
    and "\<forall>j\<le>m. clk (reads s + j) = now"
    and "m = 0 \<or> delays_from (frames s) (Suc (frameIndex s)) m < dc + (now - lt)"
    and "dc + (now - lt) \<le> delays_from (frames s) (Suc (frameIndex s)) (Suc m)"
    and "loopCount s = 0 \<or>
         loops s + (Suc (frameIndex s) + m) div length (frames s) \<le> loopCount s"
  shows "enqueueNextFrame clk s =
     Some (None, s \<lparr> frameIndex := (Suc (frameIndex s) + m) mod length (frames s),
                     loops := loops s + (Suc (frameIndex s) + m) div length (frames s),
                     reads := reads s + Suc m,
                     lastTime := Some now,
                     delayCompensation :=
                       Some (dc + (now - lt) - delays_from (frames s) (Suc (frameIndex s)) (Suc m)),
                     timers := timers s @
                       [Some (delays_from (frames s) (Suc (frameIndex s)) (Suc m) - (dc + (now - lt)))] \<rparr>)"
proof -
  let ?N = "length (frames s)"
  let ?i = "frameIndex s"
  let ?s1 = "s \<lparr> frameIndex := Suc ?i mod ?N, loops := loops s + Suc ?i div ?N \<rparr>"
  have N: "0 < ?N" using assms(2) by (cases "frames s") simp_all
  have nostop: "\<not> (Suc ?i = ?N \<and> loopCount s \<noteq> 0 \<and> loopCount s = loops s)"
  proof
    assume a: "Suc ?i = ?N \<and> loopCount s \<noteq> 0 \<and> loopCount s = loops s"
    then have "Suc ?i + m = ?N + m" by simp
    then have "(Suc ?i + m) div ?N = (?N + m) div ?N" by (simp only:)
    also have "(?N + m) div ?N = Suc (m div ?N)" using N div_add_self1 [of ?N m] by simp
    finally have "(Suc ?i + m) div ?N = Suc (m div ?N)" .
    with a assms(8) show False by linarith
  qed
  have adv: "advanceFrame s = ?s1"
    by (rule advanceFrame_wraps [OF assms(2) nostop])
  have run1: "running ?s1" using assms(1) by simp
  have i1: "frameIndex ?s1 < length (frames ?s1)" using N by simp
  have lt1: "lastTime ?s1 = Some lt" using assms(3) by simp
  have dc1: "delayCompensation ?s1 = Some dc" using assms(4) by simp
  have clk1: "\<forall>j\<le>m. clk (reads ?s1 + j) = now" using assms(5) by simp
  have lo: "m = 0 \<or> delays_from (frames ?s1) (frameIndex ?s1) m < dc + (now - lt)"
    using assms(6) by (simp add: delays_from_mod)
  have hi: "dc + (now - lt) \<le> delays_from (frames ?s1) (frameIndex ?s1) (Suc m)"
    using assms(7) by (simp add: delays_from_mod del: delays_from.simps)
  have cnt: "loopCount ?s1 = 0 \<or>
      loops ?s1 + (frameIndex ?s1 + m) div length (frames ?s1) \<le> loopCount ?s1"
    using assms(8) div_mod_step(2) [of ?i ?N m] by (simp add: add.assoc)
  note L = enqueue_loop_skips [where clk = clk and now = now, OF run1 i1 lt1 dc1 clk1 lo hi cnt]
  have dm: "delays_from (frames s) (Suc ?i mod ?N) (Suc m) = delays_from (frames s) (Suc ?i) (Suc m)"
    by (rule delays_from_mod)
  show ?thesis
    unfolding enqueueNextFrame_def adv L
    using div_mod_step [of ?i ?N m] dm
    by (simp del: delays_from.simps add: add.assoc)
qed

text \<open>
  C2, as stated, fails. In \<open>stall0\<close> the first tick draws frame 0 and schedules frame 1
  after its 200 ms. The clock then jumps by 300 ms to the second tick: more than the
  150 ms of the next two frames (2 and 0) and less than the 350 ms of the next three,
  so the claim has the engine advance past exactly frames 2 and 0 and render frame 1
  next. The second tick advances past frame 2 only and leaves frame 0 to be rendered
  next: of the 300 ms, 200 were the scheduled wait.
\<close>

theorem frame_skip_not_exactly_m:
  "tick stall stall0 = Some (None, stall1) \<and> frameIndex stall1 = 1 \<and>
   stall 2 - stall 1 = 300 \<and>
   delays_from (frames stall1) 2 2 = 150 \<and> delays_from (frames stall1) 2 3 = 350 \<and>
   tick stall stall1 = Some (None, stall2) \<and> frameIndex stall2 = 0 \<and>
   draws stall2 = draws stall1 + 1"
  by code_simp

text \<open>
  C2, amended. Let the engine be running at frame \<open>i\<close> with initialised timing fields,
  let the clock read \<open>now\<close> throughout the advance-and-delay procedure, and let \<open>D\<close> =
  \<open>delayCompensation + (now - lastTime)\<close> be the time by which the tick is late. If \<open>D\<close>
  exceeds the summed delays of the next \<open>m\<close> frames (nothing is asked for \<open>m = 0\<close>) but
  not those of the next \<open>m + 1\<close>, and the loop count is not exhausted on the way, then
  the procedure returns having advanced past exactly those \<open>m\<close> frames with no call on
  the DOM, has scheduled one tick with delay (sum of the \<open>m + 1\<close> delays) - \<open>D\<close>, and the
  next tick renders frame \<open>(i + 1 + m) mod N\<close>. And whenever the procedure returns, it
  has made no DOM call and scheduled at most one tick, whose delay is not negative
  (it is a number when the timing fields were initialised).
\<close>

theorem frame_skip:
  "(running s \<and> frameIndex s < length (frames s) \<and>
    lastTime s = Some lt \<and> delayCompensation s = Some dc \<and>
    (\<forall>j\<le>m. clk (reads s + j) = now) \<and>
    (m = 0 \<or> delays_from (frames s) (Suc (frameIndex s)) m < dc + (now - lt)) \<and>
    dc + (now - lt) \<le> delays_from (frames s) (Suc (frameIndex s)) (Suc m) \<and>
    (loopCount s = 0 \<or>
     loops s + (Suc (frameIndex s) + m) div length (frames s) \<le> loopCount s)
    \<longrightarrow>
    (\<exists>s'. enqueueNextFrame clk s = Some (None, s') \<and>
       running s' \<and> calls s' = calls s \<and>
       frameIndex s' = (Suc (frameIndex s) + m) mod length (frames s) \<and>
       loops s' = loops s + (Suc (frameIndex s) + m) div length (frames s) \<and>
       timers s' = timers s @
         [Some (delays_from (frames s) (Suc (frameIndex s)) (Suc m) - (dc + (now - lt)))] \<and>
       nextFrameRender clk' s' =
         (let r = onFrame ((Suc (frameIndex s) + m) mod length (frames s)) s'
          in case fst r of Some e \<Rightarrow> Some r | None \<Rightarrow> enqueueNextFrame clk' (snd r)))) \<and>
   (enqueueNextFrame clk s = Some r \<longrightarrow>
      calls (snd r) = calls s \<and>
      (timers (snd r) = timers s \<or>
       (\<exists>d. timers (snd r) = timers s @ [d] \<and> (\<forall>x. d = Some x \<longrightarrow> 0 \<le> x) \<and>
          (lastTime s \<noteq> None \<and> delayCompensation s \<noteq> None \<longrightarrow> d \<noteq> None))))"
proof (rule conjI; rule impI)
  assume a: "running s \<and> frameIndex s < length (frames s) \<and>
    lastTime s = Some lt \<and> delayCompensation s = Some dc \<and>
    (\<forall>j\<le>m. clk (reads s + j) = now) \<and>
    (m = 0 \<or> delays_from (frames s) (Suc (frameIndex s)) m < dc + (now - lt)) \<and>
    dc + (now - lt) \<le> delays_from (frames s) (Suc (frameIndex s)) (Suc m) \<and>
    (loopCount s = 0 \<or>
     loops s + (Suc (frameIndex s) + m) div length (frames s) \<le> loopCount s)"
  then have e: "enqueueNextFrame clk s =
     Some (None, s \<lparr> frameIndex := (Suc (frameIndex s) + m) mod length (frames s),
                     loops := loops s + (Suc (frameIndex s) + m) div length (frames s),
                     reads := reads s + Suc m,
                     lastTime := Some now,
                     delayCompensation :=
                       Some (dc + (now - lt) - delays_from (frames s) (Suc (frameIndex s)) (Suc m)),
                     timers := timers s @
                       [Some (delays_from (frames s) (Suc (frameIndex s)) (Suc m) - (dc + (now - lt)))] \<rparr>)"
    by (intro enqueueNextFrame_skips) simp_all
  from a have "running s" by simp
  then show "\<exists>s'. enqueueNextFrame clk s = Some (None, s') \<and>
       running s' \<and> calls s' = calls s \<and>
       frameIndex s' = (Suc (frameIndex s) + m) mod length (frames s) \<and>
       loops s' = loops s + (Suc (frameIndex s) + m) div length (frames s) \<and>
       timers s' = timers s @
         [Some (delays_from (frames s) (Suc (frameIndex s)) (Suc m) - (dc + (now - lt)))] \<and>
       nextFrameRender clk' s' =
         (let r = onFrame ((Suc (frameIndex s) + m) mod length (frames s)) s'
          in case fst r of Some e \<Rightarrow> Some r | None \<Rightarrow> enqueueNextFrame clk' (snd r))"
    unfolding e by (simp add: nextFrameRender_def del: delays_from.simps)
next
  assume "enqueueNextFrame clk s = Some r"
  then have "enqueue_loop clk (advanceFrame s) = Some r" by (simp add: enqueueNextFrame_def)
  from enqueue_loop_schedules [OF this]
  show "calls (snd r) = calls s \<and>
      (timers (snd r) = timers s \<or>
       (\<exists>d. timers (snd r) = timers s @ [d] \<and> (\<forall>x. d = Some x \<longrightarrow> 0 \<le> x) \<and>
          (lastTime s \<noteq> None \<and> delayCompensation s \<noteq> None \<longrightarrow> d \<noteq> None)))"
    by (simp add: advanceFrame_keeps)
qed

lemma drawn3_facts:
  "running drawn3" "frameIndex drawn3 = 0" "length (frames drawn3) = 3"
  "lastTime drawn3 = Some 0" "delayCompensation drawn3 = Some 0" "reads drawn3 = 1"
  "loopCount drawn3 = 1" "loops drawn3 = 0" "timers drawn3 = []"
  "delays_from (frames drawn3) (Suc 0) 2 = 250"
  "delays_from (frames drawn3) (Suc 0) 3 = 350"
  by code_simp+

lemma drawn3_skip:
  "enqueueNextFrame late drawn3 =
     Some (None, drawn3 \<lparr> frameIndex := 0, loops := 1, reads := 4, lastTime := Some 260,
                         delayCompensation := Some (- 90), timers := [Some 90] \<rparr>)"
  by code_simp

theorem frame_skip_witness:
  "running drawn3 \<and> frameIndex drawn3 < length (frames drawn3) \<and>
   lastTime drawn3 = Some 0 \<and> delayCompensation drawn3 = Some 0 \<and>
   late (reads drawn3 + 0) = 260 \<and> late (reads drawn3 + 1) = 260 \<and>
   late (reads drawn3 + 2) = 260 \<and>
   delays_from (frames drawn3) (Suc (frameIndex drawn3)) 2 < 0 + (260 - 0) \<and>
   0 + (260 - 0) \<le> delays_from (frames drawn3) (Suc (frameIndex drawn3)) (Suc 2) \<and>
   loops drawn3 + (Suc (frameIndex drawn3) + 2) div length (frames drawn3) \<le> loopCount drawn3 \<and>
   enqueueNextFrame late drawn3 =
     Some (None, drawn3 \<lparr> frameIndex := 0, loops := 1, reads := 4, lastTime := Some 260,
                         delayCompensation := Some (- 90), timers := [Some 90] \<rparr>) \<and>
   (\<exists>s'. enqueueNextFrame late drawn3 = Some (None, s') \<and> calls s' = calls drawn3 \<and>
         frameIndex s' = 0 \<and> timers s' = [Some 90])"
proof -
  have h: "running drawn3 \<and> frameIndex drawn3 < length (frames drawn3) \<and>
    lastTime drawn3 = Some 0 \<and> delayCompensation drawn3 = Some 0 \<and>
    (\<forall>j\<le>2. late (reads drawn3 + j) = 260) \<and>
    (2 = (0::nat) \<or> delays_from (frames drawn3) (Suc (frameIndex drawn3)) 2 < 0 + (260 - 0)) \<and>
    0 + (260 - 0) \<le> delays_from (frames drawn3) (Suc (frameIndex drawn3)) (Suc 2) \<and>
    (loopCount drawn3 = 0 \<or>
     loops drawn3 + (Suc (frameIndex drawn3) + 2) div length (frames drawn3) \<le> loopCount drawn3)"
    by (simp add: drawn3_facts late_def del: delays_from.simps)
  from frame_skip [of drawn3 0 0 2 late 260 late
      "(None, drawn3 \<lparr> frameIndex := 0, loops := 1, reads := 4, lastTime := Some 260,
                         delayCompensation := Some (- 90), timers := [Some 90] \<rparr>)"] h drawn3_skip
  show ?thesis
    by (simp add: drawn3_facts late_def del: delays_from.simps)
qed

section \<open>Animator: a whole playback\<close>

lemma delays_from_snoc:
  "delays_from fs i (Suc m) = delays_from fs i m + int (delay (fs ! ((i + m) mod length fs))) * 10"
  by (induction m arbitrary: i) simp_all

lemma delays_from_cong:
  assumes "map delay fs = map delay gs"
  shows "delays_from fs i m = delays_from gs i m"
proof -
  from assms have len: "length fs = length gs" by (metis length_map)
  have nth: "delay (fs ! k) = delay (gs ! k)" if "k < length gs" for k
    using that assms len by (metis nth_map)
  show ?thesis
  proof (induction m arbitrary: i)
    case 0
    show ?case by simp
  next
    case (Suc m)
    show ?case
    proof (cases "gs = []")
      case True
      with len have "fs = []" by simp
      with True show ?thesis by simp
    next
      case False
      then have "i mod length gs < length gs" by simp
      from nth [OF this] Suc [of "Suc i"] len show ?thesis by simp
    qed
  qed
qed

lemma onFrame_ok:
  assumes "i < length (frames s)" "ctx s = Some c"
  shows "fst (onFrame i s) = None"
  using assms by (auto simp: onFrame_defs split: option.splits dispose.splits)

lemma onFrame_fields:
  assumes "i < length (frames s)" "ctx s = Some c"
  shows "running (snd (onFrame i s)) = running s"
    "frameIndex (snd (onFrame i s)) = frameIndex s"
    "loops (snd (onFrame i s)) = loops s"
    "loopCount (snd (onFrame i s)) = loopCount s"
    "lastTime (snd (onFrame i s)) = lastTime s"
    "delayCompensation (snd (onFrame i s)) = delayCompensation s"
    "timers (snd (onFrame i s)) = timers s"
    "reads (snd (onFrame i s)) = reads s"
    "ctx (snd (onFrame i s)) \<noteq> None"
    "map delay (frames (snd (onFrame i s))) = map delay (frames s)"
    "draws (snd (onFrame i s)) = Suc (draws s)"
  using assms
  by (auto simp: onFrame_defs draws_def map_update list_update_same_conv
      split: option.splits dispose.splits)

lemma start_after_ticks:
  assumes "ctx a \<noteq> None" "timers a = []" "frameIndex a = 0" "loops a = 0"
  shows "after_ticks clk a 0 (start clk a)"
  using assms by (simp add: after_ticks_def start_def draws_def)

lemma Suc_div_split:
  fixes j n :: nat
  assumes "0 < n"
  shows "Suc j div n = j div n + Suc (j mod n) div n"
proof (cases "Suc (j mod n) = n")
  case True
  then have "Suc (j mod n) div n = 1" using assms by simp
  with True show ?thesis by (simp add: div_Suc mod_Suc)
next
  case False
  moreover have "j mod n < n" using assms by simp
  ultimately have "Suc (j mod n) < n" by linarith
  then have "Suc (j mod n) div n = 0" by simp
  with False show ?thesis by (simp add: div_Suc mod_Suc)
qed

lemma render_step:
  assumes inv: "after_ticks clk a j s" and ne: "frames a \<noteq> []"
  shows "\<exists>s1. tick clk s = enqueueNextFrame clk s1 \<and>
     running s1 \<and> frameIndex s1 = j mod length (frames a) \<and> loops s1 = j div length (frames a) \<and>
     loopCount s1 = loopCount a \<and> map delay (frames s1) = map delay (frames a) \<and>
     lastTime s1 = Some (clk (reads a + j)) \<and>
     delayCompensation s1 = Some (clk (reads a + j) - clk (reads a) - delays_from (frames a) 1 j) \<and>
     reads s1 = Suc (reads a + j) \<and> timers s1 = [] \<and>
     ctx s1 \<noteq> None \<and> draws s1 = Suc (draws a + j)"
proof -
  let ?N = "length (frames a)"
  let ?s0 = "s \<lparr> timers := [] \<rparr>"
  let ?i = "j mod ?N"
  from inv have len: "length (frames s) = ?N"
    unfolding after_ticks_def by (metis length_map)
  from ne have i: "?i < length (frames ?s0)" using len by simp
  from inv obtain c where c: "ctx ?s0 = Some c" unfolding after_ticks_def by auto
  from inv have fi: "frameIndex ?s0 = ?i" and run: "running ?s0"
    unfolding after_ticks_def by simp_all
  have dr: "draws ?s0 = draws s" by (simp add: draws_def)
  from inv obtain d where "timers s = [d]" unfolding after_ticks_def by blast
  then have "tick clk s = nextFrameRender clk ?s0" by (simp add: tick_def)
  also have "\<dots> = enqueueNextFrame clk (snd (onFrame ?i ?s0))"
    using run fi onFrame_ok [OF i c] by (simp add: nextFrameRender_def Let_def)
  finally have t: "tick clk s = enqueueNextFrame clk (snd (onFrame ?i ?s0))" .
  show ?thesis
    apply (rule exI [where x = "snd (onFrame ?i ?s0)"])
    using inv t dr unfolding after_ticks_def
    by (simp add: onFrame_fields [OF i c])
qed

lemma tick_after_ticks:
  assumes inv: "after_ticks clk a j s" and ne: "frames a \<noteq> []"
    and cnt: "loopCount a = 0 \<or> Suc j < (loopCount a + 1) * length (frames a)"
    and ot: "clk (reads a + Suc j) - clk (reads a) \<le> delays_from (frames a) 1 (Suc j)"
  shows "\<exists>s'. tick clk s = Some (None, s') \<and> after_ticks clk a (Suc j) s'"
proof -
  let ?N = "length (frames a)"
  let ?i = "j mod ?N"
  let ?lt = "clk (reads a + j)"
  let ?now = "clk (reads a + Suc j)"
  let ?dc = "?lt - clk (reads a) - delays_from (frames a) 1 j"
  from ne have N: "0 < ?N" by simp
  from render_step [OF inv ne] obtain s1 where t: "tick clk s = enqueueNextFrame clk s1"
    and run: "running s1" and fi: "frameIndex s1 = ?i" and lo: "loops s1 = j div ?N"
    and lc: "loopCount s1 = loopCount a" and md: "map delay (frames s1) = map delay (frames a)"
    and lt: "lastTime s1 = Some ?lt" and dc: "delayCompensation s1 = Some ?dc"
    and rd: "reads s1 = Suc (reads a + j)" and tm: "timers s1 = []"
    and cx: "ctx s1 \<noteq> None" and dr: "draws s1 = Suc (draws a + j)"
    by blast
  from md have len: "length (frames s1) = ?N" by (metis length_map)
  have i: "frameIndex s1 < length (frames s1)" using fi len N by simp
  have clk0: "\<forall>k\<le>0. clk (reads s1 + k) = ?now" using rd by simp
  have nxt: "delays_from (frames s1) (Suc (frameIndex s1)) (Suc 0) =
      int (delay (frames a ! (Suc j mod ?N))) * 10"
    using delays_from_cong [OF md, of "Suc ?i" "Suc 0"] fi by (simp add: mod_Suc_eq)
  have snoc: "delays_from (frames a) 1 (Suc j) =
      delays_from (frames a) 1 j + int (delay (frames a ! (Suc j mod ?N))) * 10"
    using delays_from_snoc [of "frames a" 1 j] by simp
  have hi: "?dc + (?now - ?lt) \<le> delays_from (frames s1) (Suc (frameIndex s1)) (Suc 0)"
    using ot snoc nxt by linarith
  have sd: "Suc j div ?N = j div ?N + Suc ?i div ?N" by (rule Suc_div_split [OF N])
  have lim: "loopCount a \<noteq> 0 \<Longrightarrow> Suc j div ?N \<le> loopCount a"
  proof -
    assume "loopCount a \<noteq> 0"
    with cnt have "Suc j < (loopCount a + 1) * ?N" by simp
    then have "Suc j div ?N < loopCount a + 1" by (rule less_mult_imp_div_less)
    then show ?thesis by simp
  qed
  have nostop: "loopCount s1 = 0 \<or>
      loops s1 + (Suc (frameIndex s1) + 0) div length (frames s1) \<le> loopCount s1"
    using lim sd by (auto simp: lc lo fi len)
  note E = enqueueNextFrame_skips [where clk = clk and now = ?now and m = 0,
      OF run i lt dc clk0 _ hi nostop]
  let ?s' = "s1 \<lparr> frameIndex := (Suc (frameIndex s1) + 0) mod length (frames s1),
      loops := loops s1 + (Suc (frameIndex s1) + 0) div length (frames s1),
      reads := reads s1 + Suc 0, lastTime := Some ?now,
      delayCompensation :=
        Some (?dc + (?now - ?lt) - delays_from (frames s1) (Suc (frameIndex s1)) (Suc 0)),
      timers := timers s1 @
        [Some (delays_from (frames s1) (Suc (frameIndex s1)) (Suc 0) - (?dc + (?now - ?lt)))] \<rparr>"
  have e: "tick clk s = Some (None, ?s')" using t E by simp
  have a1: "frameIndex ?s' = Suc j mod ?N" by (simp add: fi len mod_Suc_eq)
  have a2: "loops ?s' = Suc j div ?N" using sd by (simp add: fi len lo)
  have a3: "delayCompensation ?s' = Some (?now - clk (reads a) - delays_from (frames a) 1 (Suc j))"
    unfolding snoc nxt by simp
  have a4: "timers ?s' = [Some (delays_from (frames a) 1 (Suc j) - (?now - clk (reads a)))]"
    unfolding snoc nxt by (simp add: tm)
  have a5: "draws ?s' = draws a + Suc j" using dr by (simp add: draws_def)
  have "after_ticks clk a (Suc j) ?s'"
    unfolding after_ticks_def
    using a1 a2 a3 a4 a5 run lc md cx rd by simp
  with e show ?thesis by blast
qed

lemma tick_stops:
  assumes inv: "after_ticks clk a j s" and ne: "frames a \<noteq> []"
    and k: "loopCount a \<noteq> 0" and last: "Suc j = (loopCount a + 1) * length (frames a)"
  shows "\<exists>s'. tick clk s = Some (None, s') \<and> \<not> running s' \<and> timers s' = [] \<and>
     draws s' = draws a + Suc j \<and> frameIndex s' = length (frames s')"
proof -
  let ?N = "length (frames a)"
  from ne have N: "0 < ?N" by simp
  from render_step [OF inv ne] obtain s1 where t: "tick clk s = enqueueNextFrame clk s1"
    and run: "running s1" and fi: "frameIndex s1 = j mod ?N" and lo: "loops s1 = j div ?N"
    and lc: "loopCount s1 = loopCount a" and md: "map delay (frames s1) = map delay (frames a)"
    and tm: "timers s1 = []" and dr: "draws s1 = Suc (draws a + j)"
    by blast
  from md have len: "length (frames s1) = ?N" by (metis length_map)
  have "Suc j mod ?N = 0" using last by simp
  then have m: "Suc (j mod ?N) = ?N" using N by (simp add: mod_Suc split: if_splits)
  have "Suc j div ?N = loopCount a + 1" using last N by simp
  moreover have "?N div ?N = 1" using N by simp
  ultimately have d: "j div ?N = loopCount a" using m Suc_div_split [OF N, of j] by simp
  have adv: "advanceFrame s1 = s1 \<lparr> frameIndex := ?N, running := False \<rparr>"
    using m d k by (simp add: advanceFrame_def stop_def Let_def fi lo lc len)
  have "enqueueNextFrame clk s1 = Some (None, s1 \<lparr> frameIndex := ?N, running := False \<rparr>)"
    unfolding enqueueNextFrame_def adv by (subst enqueue_loop.simps) simp
  with t have "tick clk s = Some (None, s1 \<lparr> frameIndex := ?N, running := False \<rparr>)" by simp
  moreover have "draws (s1 \<lparr> frameIndex := ?N, running := False \<rparr>) = draws a + Suc j"
    using dr by (simp add: draws_def)
  ultimately show ?thesis using tm len by auto
qed

lemma ticks_after_ticks:
  assumes "after_ticks clk a j s" and "frames a \<noteq> []"
    and "loopCount a = 0 \<or> j + n < (loopCount a + 1) * length (frames a)"
    and "\<forall>i. j < i \<and> i \<le> j + n \<longrightarrow>
           clk (reads a + i) - clk (reads a) \<le> delays_from (frames a) 1 i"
  shows "\<exists>s'. ticks clk n s = Some ([], s') \<and> after_ticks clk a (j + n) s'"
  using assms
proof (induction n arbitrary: j s)
  case 0
  then show ?case by simp
next
  case (Suc n)
  have cnt: "loopCount a = 0 \<or> Suc j < (loopCount a + 1) * length (frames a)"
    using Suc.prems(3) by auto
  have ot: "clk (reads a + Suc j) - clk (reads a) \<le> delays_from (frames a) 1 (Suc j)"
    using Suc.prems(4) [rule_format, of "Suc j"] by (simp del: delays_from.simps)
  from tick_after_ticks [OF Suc.prems(1) Suc.prems(2) cnt ot]
  obtain s1 where t: "tick clk s = Some (None, s1)" and inv1: "after_ticks clk a (Suc j) s1"
    by blast
  have cnt': "loopCount a = 0 \<or> Suc j + n < (loopCount a + 1) * length (frames a)"
    using Suc.prems(3) by simp
  have ot': "\<forall>i. Suc j < i \<and> i \<le> Suc j + n \<longrightarrow>
           clk (reads a + i) - clk (reads a) \<le> delays_from (frames a) 1 i"
    using Suc.prems(4) by (simp del: delays_from.simps)
  from Suc.IH [OF inv1 Suc.prems(2) cnt' ot']
  obtain s' where "ticks clk n s1 = Some ([], s')" and "after_ticks clk a (Suc j + n) s'"
    by blast
  with t show ?case by simp
qed

lemma ticks_idle: "timers s = [] \<Longrightarrow> ticks clk m s = Some ([], s)"
  by (induction m) (simp_all add: tick_def)

lemma ticks_Suc_end:
  "ticks clk n s = Some ([], s1) \<Longrightarrow> tick clk s1 = Some (None, s2) \<Longrightarrow>
   ticks clk (Suc n) s = Some ([], s2)"
proof (induction n arbitrary: s)
  case 0
  then show ?case by simp
next
  case (Suc n)
  from Suc.prems(1) obtain r r' where r: "tick clk s = Some r"
    and r': "ticks clk n (snd r) = Some r'"
    and eq: "(case fst r of None \<Rightarrow> [] | Some e \<Rightarrow> [e]) @ fst r' = []" "snd r' = s1"
    by (auto split: option.splits)
  from eq have "r' = ([], s1)" by (cases r') simp
  with r' have "ticks clk n (snd r) = Some ([], s1)" by simp
  from Suc.IH [OF this Suc.prems(2)] have "ticks clk (Suc n) (snd r) = Some ([], s2)" .
  moreover from eq have "fst r = None" by (cases "fst r") simp_all
  ultimately show ?case using r by (simp del: ticks.simps add: ticks.simps(2) [of clk "Suc n" s])
qed

lemma playback_runs:
  assumes ne: "frames a \<noteq> []" and cx: "ctx a \<noteq> None" and tm: "timers a = []"
    and fi: "frameIndex a = 0" and lo: "loops a = 0"
    and cnt: "loopCount a = 0 \<or> n < (loopCount a + 1) * length (frames a)"
    and ot: "on_time clk (reads a) (frames a) (Suc n)"
  shows "\<exists>s. ticks clk n (start clk a) = Some ([], s) \<and> after_ticks clk a n s"
proof -
  have inv0: "after_ticks clk a 0 (start clk a)"
    by (rule start_after_ticks [OF cx tm fi lo])
  have cnt0: "loopCount a = 0 \<or> 0 + n < (loopCount a + 1) * length (frames a)"
    using cnt by simp
  have ot0: "\<forall>i. 0 < i \<and> i \<le> 0 + n \<longrightarrow>
      clk (reads a + i) - clk (reads a) \<le> delays_from (frames a) 1 i"
    using ot by (simp add: on_time_def less_Suc_eq_le del: delays_from.simps)
  from ticks_after_ticks [OF inv0 ne cnt0 ot0] show ?thesis by simp
qed

lemma playback_stops:
  assumes ne: "frames a \<noteq> []" and cx: "ctx a \<noteq> None" and tm: "timers a = []"
    and fi: "frameIndex a = 0" and lo: "loops a = 0"
    and k: "loopCount a \<noteq> 0"
    and ot: "on_time clk (reads a) (frames a) ((loopCount a + 1) * length (frames a))"
  shows "\<exists>s. ticks clk ((loopCount a + 1) * length (frames a)) (start clk a) = Some ([], s) \<and>
     \<not> running s \<and> timers s = [] \<and>
     draws s = draws a + (loopCount a + 1) * length (frames a) \<and>
     (\<forall>m. ticks clk m s = Some ([], s))"
proof -
  let ?M = "(loopCount a + 1) * length (frames a)"
  from ne have "0 < ?M" by simp
  then obtain j where M: "?M = Suc j" by (cases ?M) simp_all
  have cnt: "loopCount a = 0 \<or> j < ?M" using M by simp
  have ot': "on_time clk (reads a) (frames a) (Suc j)" using ot M by simp
  from playback_runs [OF ne cx tm fi lo cnt ot']
  obtain s1 where t1: "ticks clk j (start clk a) = Some ([], s1)"
    and inv: "after_ticks clk a j s1" by blast
  from tick_stops [OF inv ne k M [symmetric]]
  obtain s2 where t2: "tick clk s1 = Some (None, s2)" and st: "\<not> running s2" "timers s2 = []"
    "draws s2 = draws a + Suc j" by blast
  from ticks_Suc_end [OF t1 t2] have "ticks clk (Suc j) (start clk a) = Some ([], s2)" .
  with st ticks_idle [OF st(2)] M show ?thesis by (simp del: ticks.simps)
qed

lemma on_time_mono: "on_time clk r fs m \<Longrightarrow> n \<le> m \<Longrightarrow> on_time clk r fs n"
  by (simp add: on_time_def del: delays_from.simps)

text \<open>
  C1. Take any non-empty frame list \<open>fs\<close> (N frames) and start playback of a fresh
  animator with \<open>animateInCanvas\<close>, under a clock that never makes the engine skip a
  frame. With loop count k > 0, after every n < (k + 1) * N ticks the engine is running
  and has made n draw calls; after (k + 1) * N ticks it has made (k + 1) * N draw calls,
  is not running and has no tick pending, so that every later tick finds it so. With
  loop count 0 the engine is running after any number of ticks. All these ticks return,
  without exception.
\<close>

theorem loop_termination:
  "fs \<noteq> [] \<longrightarrow>
     (0 < reader_loopCount rd \<and> on_time clk 0 fs ((reader_loopCount rd + 1) * length fs) \<longrightarrow>
        (\<forall>n<(reader_loopCount rd + 1) * length fs.
           \<exists>s. ticks clk n (animateInCanvas cv sd clk (Animator rd fs)) = Some ([], s) \<and>
               running s \<and> draws s = n) \<and>
        (\<exists>s. ticks clk ((reader_loopCount rd + 1) * length fs)
                (animateInCanvas cv sd clk (Animator rd fs)) = Some ([], s) \<and>
             \<not> running s \<and> timers s = [] \<and> draws s = (reader_loopCount rd + 1) * length fs \<and>
             (\<forall>m. ticks clk m s = Some ([], s)))) \<and>
     (reader_loopCount rd = 0 \<and> (\<forall>n. on_time clk 0 fs n) \<longrightarrow>
        (\<forall>n. \<exists>s. ticks clk n (animateInCanvas cv sd clk (Animator rd fs)) = Some ([], s) \<and>
               running s \<and> draws s = n))"
proof (rule impI)
  assume ne0: "fs \<noteq> []"
  define a where "a = (Animator rd fs) \<lparr> ctx := Some (if sd then Blank else cv) \<rparr>"
  have a: "frames a = fs" "loopCount a = reader_loopCount rd" "reads a = 0" "draws a = 0"
    and cx: "ctx a \<noteq> None" and tm: "timers a = []" and fi: "frameIndex a = 0"
    and lo: "loops a = 0"
    by (simp_all add: a_def Animator_def draws_def)
  have s0: "animateInCanvas cv sd clk (Animator rd fs) = start clk a"
    by (simp add: animateInCanvas_def a_def)
  from ne0 have ne: "frames a \<noteq> []" by (simp add: a)
  show "(0 < reader_loopCount rd \<and> on_time clk 0 fs ((reader_loopCount rd + 1) * length fs) \<longrightarrow>
        (\<forall>n<(reader_loopCount rd + 1) * length fs.
           \<exists>s. ticks clk n (animateInCanvas cv sd clk (Animator rd fs)) = Some ([], s) \<and>
               running s \<and> draws s = n) \<and>
        (\<exists>s. ticks clk ((reader_loopCount rd + 1) * length fs)
                (animateInCanvas cv sd clk (Animator rd fs)) = Some ([], s) \<and>
             \<not> running s \<and> timers s = [] \<and> draws s = (reader_loopCount rd + 1) * length fs \<and>
             (\<forall>m. ticks clk m s = Some ([], s)))) \<and>
     (reader_loopCount rd = 0 \<and> (\<forall>n. on_time clk 0 fs n) \<longrightarrow>
        (\<forall>n. \<exists>s. ticks clk n (animateInCanvas cv sd clk (Animator rd fs)) = Some ([], s) \<and>
               running s \<and> draws s = n))"
  proof (rule conjI; rule impI)
    assume h: "0 < reader_loopCount rd \<and>
      on_time clk 0 fs ((reader_loopCount rd + 1) * length fs)"
    then have k: "loopCount a \<noteq> 0"
      and ot: "on_time clk (reads a) (frames a) ((loopCount a + 1) * length (frames a))"
      by (simp_all add: a)
    have run: "\<exists>s. ticks clk n (start clk a) = Some ([], s) \<and> running s \<and> draws s = n"
      if n: "n < (loopCount a + 1) * length (frames a)" for n
    proof -
      from n have "Suc n \<le> (loopCount a + 1) * length (frames a)" by simp
      from on_time_mono [OF ot this] have ot': "on_time clk (reads a) (frames a) (Suc n)" .
      from n have cnt: "loopCount a = 0 \<or> n < (loopCount a + 1) * length (frames a)" by simp
      from playback_runs [OF ne cx tm fi lo cnt ot'] show ?thesis
        by (auto simp: after_ticks_def a)
    qed
    from playback_stops [OF ne cx tm fi lo k ot] run
    show "(\<forall>n<(reader_loopCount rd + 1) * length fs.
           \<exists>s. ticks clk n (animateInCanvas cv sd clk (Animator rd fs)) = Some ([], s) \<and>
               running s \<and> draws s = n) \<and>
        (\<exists>s. ticks clk ((reader_loopCount rd + 1) * length fs)
                (animateInCanvas cv sd clk (Animator rd fs)) = Some ([], s) \<and>
             \<not> running s \<and> timers s = [] \<and> draws s = (reader_loopCount rd + 1) * length fs \<and>
             (\<forall>m. ticks clk m s = Some ([], s)))"
      unfolding s0 a by (simp del: ticks.simps)
  next
    assume h: "reader_loopCount rd = 0 \<and> (\<forall>n. on_time clk 0 fs n)"
    show "\<forall>n. \<exists>s. ticks clk n (animateInCanvas cv sd clk (Animator rd fs)) = Some ([], s) \<and>
               running s \<and> draws s = n"
    proof
      fix n
      from h have cnt: "loopCount a = 0 \<or> n < (loopCount a + 1) * length (frames a)"
        and ot': "on_time clk (reads a) (frames a) (Suc n)"
        by (simp_all add: a)
      from playback_runs [OF ne cx tm fi lo cnt ot']
      show "\<exists>s. ticks clk n (animateInCanvas cv sd clk (Animator rd fs)) = Some ([], s) \<and>
               running s \<and> draws s = n"
        unfolding s0 by (auto simp: after_ticks_def a)
    qed
  qed
qed

lemma on_time_exact3: "on_time exact3 0 [dec0, dec2, dec3] n"
proof -
  have "exact3 j - exact3 0 \<le> delays_from [dec0, dec2, dec3] 1 j" for j
  proof (cases j)
    case 0
    then show ?thesis by (simp add: exact3_def)
  next
    case (Suc i)
    have "delays_from [dec0, dec2, dec3] 1 i \<le> delays_from [dec0, dec2, dec3] 1 (Suc i)"
      unfolding delays_from_snoc [of _ 1 i] by simp
    with Suc show ?thesis by (simp add: exact3_def del: delays_from.simps)
  qed
  then show ?thesis by (simp add: on_time_def del: delays_from.simps)
qed

theorem loop_termination_witness:
  "[dec0, dec2, dec3] \<noteq> [] \<and> 0 < reader_loopCount rd0 \<and>
   (\<exists>s. ticks exact3 6 (animateInCanvas Blank True exact3 (Animator rd0 [dec0, dec2, dec3]))
          = Some ([], s) \<and> \<not> running s \<and> timers s = [] \<and> draws s = 6) \<and>
   reader_loopCount (rd0 \<lparr> reader_loopCount := 0 \<rparr>) = 0 \<and>
   (\<exists>s. ticks exact3 7 (animateInCanvas Blank True exact3
            (Animator (rd0 \<lparr> reader_loopCount := 0 \<rparr>) [dec0, dec2, dec3]))
          = Some ([], s) \<and> running s \<and> draws s = 7)"
proof -
  let ?fs = "[dec0, dec2, dec3]"
  let ?rd = "rd0 \<lparr> reader_loopCount := 0 \<rparr>"
  have ne: "?fs \<noteq> []" by simp
  have k: "0 < reader_loopCount rd0" by (simp add: rd0_def)
  have M: "(reader_loopCount rd0 + 1) * length ?fs = 6" by (simp add: rd0_def)
  have k0: "reader_loopCount ?rd = 0" by simp
  have h1: "0 < reader_loopCount rd0 \<and>
      on_time exact3 0 ?fs ((reader_loopCount rd0 + 1) * length ?fs)"
    using k on_time_exact3 by blast
  have h2: "reader_loopCount ?rd = 0 \<and> (\<forall>n. on_time exact3 0 ?fs n)"
    using k0 on_time_exact3 by blast
  from loop_termination [of ?fs rd0 exact3 Blank True] ne h1
  have "\<exists>s. ticks exact3 ((reader_loopCount rd0 + 1) * length ?fs)
          (animateInCanvas Blank True exact3 (Animator rd0 ?fs)) = Some ([], s) \<and>
        \<not> running s \<and> timers s = [] \<and> draws s = (reader_loopCount rd0 + 1) * length ?fs \<and>
        (\<forall>m. ticks exact3 m s = Some ([], s))"
    by blast
  then have 1: "\<exists>s. ticks exact3 6 (animateInCanvas Blank True exact3 (Animator rd0 ?fs))
          = Some ([], s) \<and> \<not> running s \<and> timers s = [] \<and> draws s = 6"
    unfolding M by blast
  from loop_termination [of ?fs ?rd exact3 Blank True] ne h2
  have "\<forall>n. \<exists>s. ticks exact3 n (animateInCanvas Blank True exact3 (Animator ?rd ?fs))
          = Some ([], s) \<and> running s \<and> draws s = n"
    by blast
  then have 2: "\<exists>s. ticks exact3 7 (animateInCanvas Blank True exact3 (Animator ?rd ?fs))
          = Some ([], s) \<and> running s \<and> draws s = 7"
    by blast
  from ne k 1 k0 2 show ?thesis by blast
qed

end
